theory Spec2Isabelle
  imports Complex_Main "HOL-Library.Log_Nat" "HOL-Library.Multiset" "HOL-Library.Sublist"
begin

section \<open>Python values\<close>

text \<open>
  The service is written in Python. Its numbers are Python \<^verbatim>\<open>float\<close>s (IEEE 754 binary64)
  and unbounded \<^verbatim>\<open>int\<close>s, its texts are \<^verbatim>\<open>str\<close>.

  \<^item> A finite float is modelled by its exact value, a rational number; infinities and NaN
    are not numbers and are outside the model (the specification speaks of reals). The
    two zeros of binary64 compare equal in Python and are one value here.
  \<^item> Every arithmetic operation on floats returns the exact result rounded to the nearest
    binary64 value, ties to the value with an even significand (\<open>fl\<close> below), with
    gradual underflow. No operation of the program overflows on finite inputs.
  \<^item> A \<^verbatim>\<open>str\<close> is modelled by the bytes of its UTF-8 encoding; the five non-ASCII
    characters of the source's templates are written out as their three bytes.
\<close>

type_synonym pyfloat = rat
type_synonym str = string

subsection \<open>Rounding to binary64\<close>

text \<open>Rounding a rational to the nearest integer, ties to the even one.\<close>

definition round_half_even :: "rat \<Rightarrow> int" where
  "round_half_even x =
     (let f = \<lfloor>x\<rfloor>; r = x - of_int f
      in if r < 1 / 2 then f else if 1 / 2 < r then f + 1 else if even f then f else f + 1)"

text \<open>
  \<open>ilog2 q\<close> is the binary exponent of a positive rational: \<open>2 powi ilog2 q \<le> q < 2 powi (ilog2 q + 1)\<close>.
  It is computed from the bit lengths of numerator and denominator.
\<close>

definition ilog2 :: "rat \<Rightarrow> int" where
  "ilog2 q =
     (case quotient_of q of (n, d) \<Rightarrow>
        let k = bitlen n - bitlen d in if 2 powi k \<le> q then k else k - 1)"

text \<open>
  \<open>fl q\<close> is the binary64 value nearest to \<open>q\<close>: 53 significant bits, the exponent of a
  normal number at least \<open>-1022\<close>, below that the fixed spacing \<open>2 powi (-1074)\<close> of the
  subnormal numbers.
\<close>

definition fl :: "rat \<Rightarrow> pyfloat" where
  "fl q =
     (if q = 0 then 0
      else let e = max (ilog2 \<bar>q\<bar>) (- 1022) - 52
           in of_int (round_half_even (q / 2 powi e)) * 2 powi e)"

definition fadd :: "pyfloat \<Rightarrow> pyfloat \<Rightarrow> pyfloat" where
  "fadd a b = fl (a + b)"

definition fsub :: "pyfloat \<Rightarrow> pyfloat \<Rightarrow> pyfloat" where
  "fsub a b = fl (a - b)"

definition fmul :: "pyfloat \<Rightarrow> pyfloat \<Rightarrow> pyfloat" where
  "fmul a b = fl (a * b)"

text \<open>Every division of the program has a non-zero constant or a price of at least 99 as divisor.\<close>

definition fdiv :: "pyfloat \<Rightarrow> pyfloat \<Rightarrow> pyfloat" where
  "fdiv a b = fl (a / b)"

text \<open>
  Python's \<^verbatim>\<open>round(x, ndigits)\<close> on a float: the exact value of \<open>x\<close> is rounded to
  \<open>ndigits\<close> decimal places, ties to even, and the decimal result is converted back to the
  nearest float.
\<close>

definition round_py :: "pyfloat \<Rightarrow> nat \<Rightarrow> pyfloat" where
  "round_py x ndigits = fl (of_int (round_half_even (x * 10 ^ ndigits)) / 10 ^ ndigits)"

text \<open>Python's \<^verbatim>\<open>int(x)\<close> on a float truncates towards zero.\<close>

definition int_of_float :: "pyfloat \<Rightarrow> int" where
  "int_of_float x = (if 0 \<le> x then \<lfloor>x\<rfloor> else \<lceil>x\<rceil>)"

text \<open>\<^verbatim>\<open>x or 0\<close> on an optional number: \<^verbatim>\<open>None\<close> and zero both give zero.\<close>

definition or0 :: "'a::zero option \<Rightarrow> 'a" where
  "or0 x = (case x of None \<Rightarrow> 0 | Some v \<Rightarrow> v)"

subsection \<open>Library functions\<close>

text \<open>
  Five functions of the Python library are not determined by the language definition
  at the level of this model and are parameters of it: \<^verbatim>\<open>math.log10\<close> (the platform's
  libm, applied to an \<^verbatim>\<open>int\<close>), \<^verbatim>\<open>str.capitalize\<close> and \<^verbatim>\<open>str.title\<close> (Unicode case
  tables), the conversion of a float to its shortest decimal text, and the URL parser of
  pydantic, which rejects a text (\<open>None\<close>) or returns the URL in its normal form.
\<close>

record pylib =
  math_log10 :: "int \<Rightarrow> pyfloat"
  str_capitalize :: "str \<Rightarrow> str"
  str_title :: "str \<Rightarrow> str"
  float_str :: "pyfloat \<Rightarrow> str"
  url_parse :: "str \<Rightarrow> str option"

section \<open>The scorer\<close>

text \<open>\<^verbatim>\<open>_norm(v, lo, hi)\<close>\<close>

definition norm_py :: "pyfloat option \<Rightarrow> pyfloat \<Rightarrow> pyfloat \<Rightarrow> pyfloat" where
  "norm_py v lo hi =
     (case v of
        None \<Rightarrow> 0
      | Some x \<Rightarrow>
          if hi = lo then 0
          else max 0 (min 1 (fdiv (fsub x lo) (fsub hi lo))))"

text \<open>
  \<^verbatim>\<open>score_deal(price, rating, reviews)\<close>. The literals \<^verbatim>\<open>0.35\<close> and \<^verbatim>\<open>0.15\<close> are the
  floats nearest to these decimals; \<^verbatim>\<open>0.5\<close> is a float.
\<close>

definition score_deal :: "pylib \<Rightarrow> pyfloat option \<Rightarrow> pyfloat option \<Rightarrow> int option \<Rightarrow> pyfloat" where
  "score_deal L pr rt rv =
     (let price_score = (case pr of None \<Rightarrow> 0 | Some p \<Rightarrow> fsub 1 (norm_py (Some p) 100 50000));
          rating_score = (case rt of None \<Rightarrow> 0 | Some r \<Rightarrow> fdiv r 5);
          reviews_score = (case rv of None \<Rightarrow> 0 | Some n \<Rightarrow> min 1 (fdiv (math_log10 L (max 1 n)) 3))
      in round_py
           (fadd (fadd (fmul (1 / 2) price_score) (fmul (fl (35 / 100)) rating_score))
                 (fmul (fl (15 / 100)) reviews_score))
           4)"

section \<open>Texts\<close>

text \<open>\<^verbatim>\<open>sep.join(xs)\<close>\<close>

fun join :: "str \<Rightarrow> str list \<Rightarrow> str" where
  "join sep [] = []"
| "join sep [x] = x"
| "join sep (x # y # ys) = x @ sep @ join sep (y # ys)"

text \<open>\<^verbatim>\<open>s.replace(a, b)\<close> for one-character \<open>a\<close> and \<open>b\<close>.\<close>

definition str_replace :: "char \<Rightarrow> char \<Rightarrow> str \<Rightarrow> str" where
  "str_replace a b s = map (\<lambda>c. if c = a then b else c) s"

text \<open>The decimal text of an \<^verbatim>\<open>int\<close>, as an f-string writes it.\<close>

definition digit_char :: "nat \<Rightarrow> char" where
  "digit_char n = char_of (48 + n)"

function str_nat :: "nat \<Rightarrow> str" where
  "str_nat n = (if n < 10 then [digit_char n] else str_nat (n div 10) @ [digit_char (n mod 10)])"
  by pat_completeness auto
termination
  by (relation "measure id") auto

declare str_nat.simps [simp del]

definition str_int :: "int \<Rightarrow> str" where
  "str_int i = (if i < 0 then CHR ''-'' # str_nat (nat (- i)) else str_nat (nat i))"

text \<open>An optional value in an f-string: \<^verbatim>\<open>None\<close> is written \<^verbatim>\<open>None\<close>.\<close>

definition str_opt :: "('a \<Rightarrow> str) \<Rightarrow> 'a option \<Rightarrow> str" where
  "str_opt f x = (case x of None \<Rightarrow> ''None'' | Some v \<Rightarrow> f v)"

text \<open>The non-ASCII characters of the templates, in UTF-8.\<close>

definition lsquo :: str where
  "lsquo = [CHR 0xE2, CHR 0x80, CHR 0x98]"

definition rsquo :: str where
  "rsquo = [CHR 0xE2, CHR 0x80, CHR 0x99]"

definition ndash :: str where
  "ndash = [CHR 0xE2, CHR 0x80, CHR 0x93]"

definition rupee :: str where
  "rupee = [CHR 0xE2, CHR 0x82, CHR 0xB9]"

definition star :: str where
  "star = [CHR 0xE2, CHR 0x98, CHR 0x85]"

section \<open>Sorting\<close>

text \<open>
  \<^verbatim>\<open>xs.sort(key=key, reverse=reverse)\<close>. Python's sort is stable, also with
  \<^verbatim>\<open>reverse=True\<close>, where elements with equal keys keep their order: the list is reversed,
  sorted and reversed again. On linearly ordered keys the sorted, stable rearrangement of
  a list is unique (\<open>stable_sort_unique\<close> below), so the insertion sort of the HOL
  library computes the list that Python's algorithm computes.
\<close>

definition list_sort :: "('a \<Rightarrow> 'k::linorder) \<Rightarrow> bool \<Rightarrow> 'a list \<Rightarrow> 'a list" where
  "list_sort key reverse xs = (if reverse then rev (sort_key key (rev xs)) else sort_key key xs)"

section \<open>Schemas\<close>

text \<open>A \<^verbatim>\<open>datetime\<close> is a number of microseconds since the epoch.\<close>

type_synonym datetime = int

text \<open>
  Constructing a pydantic model validates its fields and raises \<^verbatim>\<open>ValidationError\<close>
  when one of them is refused.
\<close>

datatype error = ValidationError

text \<open>
  The field type \<^verbatim>\<open>HttpUrl\<close>: pydantic refuses a URL of more than 2083 characters and one
  that its parser refuses, and keeps the parser's normal form of the others. The length
  is the length of the modelled text, which on ASCII text is Python's \<^verbatim>\<open>len\<close>.
\<close>

definition HttpUrl_max_length :: nat where
  "HttpUrl_max_length = 2083"

definition HttpUrl :: "pylib \<Rightarrow> str \<Rightarrow> error + str" where
  "HttpUrl L u =
     (if HttpUrl_max_length < length u then Inl ValidationError
      else case url_parse L u of None \<Rightarrow> Inl ValidationError | Some v \<Rightarrow> Inr v)"

text \<open>Applying a function that may raise to the elements of a list, from the left.\<close>

fun try_map :: "('a \<Rightarrow> error + 'b) \<Rightarrow> 'a list \<Rightarrow> error + 'b list" where
  "try_map f [] = Inr []"
| "try_map f (x # xs) =
     (case f x of
        Inl e \<Rightarrow> Inl e
      | Inr y \<Rightarrow> (case try_map f xs of Inl e \<Rightarrow> Inl e | Inr ys \<Rightarrow> Inr (y # ys)))"

text \<open>The pydantic models of \<^verbatim>\<open>schemas.py\<close>, as records of their fields.\<close>

record Deal =
  platform :: str
  title :: str
  price :: pyfloat
  original_price :: "pyfloat option"
  discount_percent :: "pyfloat option"
  rating :: "pyfloat option"
  reviews_count :: "int option"
  quality_score :: "pyfloat option"
  image_urls :: "str list"
  product_url :: "str option"
  delivery :: "str option"
  created_at :: "datetime option"

text \<open>
  The constructor \<^verbatim>\<open>Deal(...)\<close>, applied to the record of its keyword arguments. The
  program passes a float where a float is declared, an \<^verbatim>\<open>int\<close> where an \<^verbatim>\<open>int\<close> is and
  a \<^verbatim>\<open>str\<close> where a \<^verbatim>\<open>str\<close> is, and these fields are kept; the two fields of URLs
  are validated, \<^verbatim>\<open>image_urls\<close> element by element.
\<close>

definition Deal_new :: "pylib \<Rightarrow> Deal \<Rightarrow> error + Deal" where
  "Deal_new L d =
     (case try_map (HttpUrl L) (image_urls d) of
        Inl e \<Rightarrow> Inl e
      | Inr imgs \<Rightarrow>
          (case product_url d of
             None \<Rightarrow> Inr (d\<lparr>image_urls := imgs\<rparr>)
           | Some u \<Rightarrow>
               (case HttpUrl L u of
                  Inl e \<Rightarrow> Inl e
                | Inr v \<Rightarrow> Inr (d\<lparr>image_urls := imgs, product_url := Some v\<rparr>))))"

record SearchQuery =
  query :: str
  category :: "str option"
  min_price :: "pyfloat option"
  max_price :: "pyfloat option"
  sort_by :: "str option"

record SearchResponse =
  deals :: "Deal list"
  pitch :: str

section \<open>The synthesizer\<close>

definition PLATFORMS :: "str list" where
  "PLATFORMS = [''amazon'', ''flipkart'', ''myntra'', ''ajio'']"

definition demo_images :: "str list" where
  "demo_images =
     [''https://images.unsplash.com/photo-1511707171634-5f897ff02aa9'',
      ''https://images.unsplash.com/photo-1512499617640-c2f999098c01'',
      ''https://images.unsplash.com/photo-1517336714731-489689fd1ca8'',
      ''https://images.unsplash.com/photo-1526178610626-3f118bb11566'']"

definition base_price :: pyfloat where
  "base_price = 999"

text \<open>The literal \<^verbatim>\<open>4.5\<close> is a float; \<^verbatim>\<open>4.3\<close>, \<^verbatim>\<open>4.6\<close> and \<^verbatim>\<open>4.2\<close> are rounded.\<close>

definition platforms :: "(str \<times> pyfloat \<times> pyfloat \<times> int) list" where
  "platforms =
     [(''amazon'', 0, fl (45 / 10), 1250),
      (''flipkart'', - 50, fl (43 / 10), 980),
      (''myntra'', 120, fl (46 / 10), 540),
      (''ajio'', - 100, fl (42 / 10), 330)]"

text \<open>
  The body of the loop of \<^verbatim>\<open>scrape_stub\<close>: the deal constructed for one tuple, or the
  error that its construction raises.
\<close>

definition stub_deal :: "pylib \<Rightarrow> datetime \<Rightarrow> str \<Rightarrow> nat \<times> str \<times> pyfloat \<times> pyfloat \<times> int \<Rightarrow> error + Deal" where
  "stub_deal L now q =
     (\<lambda>(i, pf, delta, rt, rv).
        let pr = max 99 (fadd base_price delta);
            original = fmul pr (5 / 4);
            discount = round_py (fmul (fsub 1 (fdiv pr original)) 100) 2
        in Deal_new L
             \<lparr>platform = pf,
              title = str_title L q @ '' '' @ ndash @ '' Top Pick #'' @ str_int (int i + 1),
              price = round_py pr 2,
              original_price = Some (round_py original 2),
              discount_percent = Some discount,
              rating = Some rt,
              reviews_count = Some rv,
              quality_score = Some (score_deal L (Some pr) (Some rt) (Some rv)),
              image_urls = demo_images,
              product_url = Some (''https://'' @ pf @ ''.com/s?k='' @ str_replace CHR '' '' CHR ''+'' q),
              delivery = Some ''Fast delivery in 2-4 days'',
              created_at = Some now\<rparr>)"

text \<open>
  The list \<^verbatim>\<open>deals\<close> when the loop has ended, before it is sorted; the loop ends with
  the first error raised.
\<close>

definition stub_deals :: "pylib \<Rightarrow> datetime \<Rightarrow> str \<Rightarrow> error + Deal list" where
  "stub_deals L now q = try_map (stub_deal L now q) (enumerate 0 platforms)"

text \<open>\<^verbatim>\<open>scrape_stub(query)\<close>; \<open>now\<close> is what \<^verbatim>\<open>datetime.utcnow()\<close> returns.\<close>

definition scrape_stub :: "pylib \<Rightarrow> datetime \<Rightarrow> str \<Rightarrow> error + Deal list" where
  "scrape_stub L now q =
     (case stub_deals L now q of
        Inl e \<Rightarrow> Inl e
      | Inr ds \<Rightarrow> Inr (list_sort (\<lambda>d. or0 (quality_score d)) True ds))"

text \<open>The texts that \<^verbatim>\<open>scrape_stub(query)\<close> hands to pydantic as URLs.\<close>

definition stub_urls :: "str \<Rightarrow> str list" where
  "stub_urls q =
     demo_images @ map (\<lambda>pf. ''https://'' @ pf @ ''.com/s?k='' @ str_replace CHR '' '' CHR ''+'' q) PLATFORMS"

section \<open>The pitch\<close>

text \<open>\<^verbatim>\<open>craft_pitch(query, deals)\<close>; \<^verbatim>\<open>deals[1:3]\<close> is \<open>take 2 (drop 1 ds)\<close>.\<close>

definition craft_pitch :: "pylib \<Rightarrow> str \<Rightarrow> Deal list \<Rightarrow> str" where
  "craft_pitch L q ds =
     (case ds of
        [] \<Rightarrow>
          ''I couldn't find great matches for '' @ lsquo @ q @ rsquo @ '' right now. '' @
          ''Try refining the product name or category, and I'll hunt for fresh deals.''
      | best # _ \<Rightarrow>
          let alt = join '', ''
                (map (\<lambda>d. str_capitalize L (platform d) @ '' at '' @ rupee @ str_int (int_of_float (price d)))
                   (take 2 (drop 1 ds)))
          in ''If you're looking for '' @ q @ '', my best pick is on '' @
             str_capitalize L (platform best) @ '' at '' @ rupee @ str_int (int_of_float (price best)) @ '' '' @
             ''with '' @ str_opt (float_str L) (discount_percent best) @ ''% off and a solid '' @
             str_opt (float_str L) (rating best) @ star @ '' from '' @
             str_opt str_int (reviews_count best) @ ''+ reviews. '' @
             ''I can also get you options from '' @ alt @
             ''. Want me to open the best offer for you?'')"

section \<open>Search\<close>

text \<open>The price filters of \<^verbatim>\<open>search_deals\<close>.\<close>

definition filter_deals :: "pyfloat option \<Rightarrow> pyfloat option \<Rightarrow> Deal list \<Rightarrow> Deal list" where
  "filter_deals mn mx ds =
     (let ds1 = (case mn of None \<Rightarrow> ds | Some lo \<Rightarrow> filter (\<lambda>d. lo \<le> price d) ds)
      in case mx of None \<Rightarrow> ds1 | Some hi \<Rightarrow> filter (\<lambda>d. price d \<le> hi) ds1)"

text \<open>The sort of \<^verbatim>\<open>search_deals\<close> for a directive, which may be absent.\<close>

definition sort_deals :: "str option \<Rightarrow> Deal list \<Rightarrow> Deal list" where
  "sort_deals sb ds =
     (if sb = Some ''price_low'' then list_sort price False ds
      else if sb = Some ''price_high'' then list_sort price True ds
      else if sb = Some ''rating'' then list_sort (\<lambda>d. or0 (rating d)) True ds
      else if sb = Some ''reviews'' then list_sort (\<lambda>d. or0 (reviews_count d)) True ds
      else list_sort (\<lambda>d. or0 (quality_score d)) True ds)"

text \<open>\<^verbatim>\<open>search_deals(payload)\<close>\<close>

definition search_deals :: "pylib \<Rightarrow> datetime \<Rightarrow> SearchQuery \<Rightarrow> error + SearchResponse" where
  "search_deals L now payload =
     (case scrape_stub L now (query payload) of
        Inl e \<Rightarrow> Inl e
      | Inr ds0 \<Rightarrow>
          let ds = filter_deals (min_price payload) (max_price payload) ds0;
              ds = sort_deals (sort_by payload) ds
          in Inr \<lparr>deals = ds, pitch = craft_pitch L (query payload) ds\<rparr>)"

section \<open>The specification's formula for the score\<close>

text \<open>
  The composite of the specification, written from its words, to be compared with
  \<open>score_deal\<close>. Its arithmetic is the arithmetic of the program's floats.
\<close>

definition spec_clamp :: "pyfloat \<Rightarrow> pyfloat \<Rightarrow> pyfloat \<Rightarrow> pyfloat" where
  "spec_clamp x lo hi = (if x < lo then lo else if hi < x then hi else x)"

definition spec_normalize :: "pyfloat \<Rightarrow> pyfloat \<Rightarrow> pyfloat \<Rightarrow> pyfloat" where
  "spec_normalize v lo hi = spec_clamp (fdiv (fsub v lo) (fsub hi lo)) 0 1"

definition spec_priceScore :: "pyfloat option \<Rightarrow> pyfloat" where
  "spec_priceScore pr = (case pr of None \<Rightarrow> 0 | Some p \<Rightarrow> fsub 1 (spec_normalize p 100 50000))"

definition spec_ratingScore :: "pyfloat option \<Rightarrow> pyfloat" where
  "spec_ratingScore rt = (case rt of None \<Rightarrow> 0 | Some r \<Rightarrow> fdiv r 5)"

definition spec_reviewsScore :: "pylib \<Rightarrow> int option \<Rightarrow> pyfloat" where
  "spec_reviewsScore L rv =
     (case rv of None \<Rightarrow> 0 | Some n \<Rightarrow> min 1 (fdiv (math_log10 L (max 1 n)) 3))"

definition spec_score :: "pylib \<Rightarrow> pyfloat option \<Rightarrow> pyfloat option \<Rightarrow> int option \<Rightarrow> pyfloat" where
  "spec_score L pr rt rv =
     round_py
       (fadd (fadd (fmul (1 / 2) (spec_priceScore pr)) (fmul (fl (35 / 100)) (spec_ratingScore rt)))
             (fmul (fl (15 / 100)) (spec_reviewsScore L rv)))
       4"

section \<open>An instance of the library\<close>

text \<open>
  A concrete library, to run the model on examples. Its \<open>log10\<close> counts decimal digits:
  it is the logarithm at the powers of ten, where the C library's \<^verbatim>\<open>log10\<close> is exact
  as well, and its integer part elsewhere. Its texts are left as they are, a float
  is written as its integer part, and its URL parser accepts every text unchanged.
\<close>

definition ref_lib :: pylib where
  "ref_lib =
     \<lparr>math_log10 = (\<lambda>n. of_int (int (floorlog 10 (nat n)) - 1)),
      str_capitalize = (\<lambda>s. s),
      str_title = (\<lambda>s. s),
      float_str = (\<lambda>x. str_int (int_of_float x)),
      url_parse = Some\<rparr>"

text \<open>Four deals with the prices of the synthesizer, as a list to sort.\<close>

definition example_deal :: "str \<Rightarrow> pyfloat \<Rightarrow> Deal" where
  "example_deal pf pr =
     \<lparr>platform = pf, title = pf, price = pr, original_price = None, discount_percent = None,
      rating = None, reviews_count = None, quality_score = None, image_urls = [],
      product_url = None, delivery = None, created_at = None\<rparr>"

definition example_deals :: "Deal list" where
  "example_deals =
     [example_deal ''amazon'' 999, example_deal ''flipkart'' 949,
      example_deal ''myntra'' 1119, example_deal ''ajio'' 899]"

section \<open>Properties of the rounding\<close>

subsection \<open>Rounding to an integer\<close>

lemma rhe_of_int: "round_half_even (of_int n) = n"
  by (simp add: round_half_even_def)

lemma rhe_cases: "round_half_even x = \<lfloor>x\<rfloor> \<or> round_half_even x = \<lfloor>x\<rfloor> + 1"
  by (simp add: round_half_even_def Let_def)

lemma rhe_lower: "\<lfloor>x\<rfloor> \<le> round_half_even x"
  using rhe_cases [of x] by linarith

lemma rhe_upper: "round_half_even x \<le> \<lfloor>x\<rfloor> + 1"
  using rhe_cases [of x] by linarith

lemma rhe_mono:
  assumes "x \<le> y"
  shows "round_half_even x \<le> round_half_even y"
proof (cases "\<lfloor>x\<rfloor> = \<lfloor>y\<rfloor>")
  case True
  then have "x - of_int \<lfloor>x\<rfloor> \<le> y - of_int \<lfloor>y\<rfloor>"
    using assms by simp
  then show ?thesis
    using True by (auto simp: round_half_even_def Let_def)
next
  case False
  have "\<lfloor>x\<rfloor> \<le> \<lfloor>y\<rfloor>"
    using assms by (rule floor_mono)
  with False have "\<lfloor>x\<rfloor> + 1 \<le> \<lfloor>y\<rfloor>"
    by linarith
  then show ?thesis
    using rhe_upper [of x] rhe_lower [of y] by linarith
qed

lemma rhe_minus: "round_half_even (- x) = - round_half_even x"
proof (cases "x \<in> \<int>")
  case True
  then obtain n where "x = of_int n"
    by (auto elim: Ints_cases)
  then show ?thesis
    using rhe_of_int [of "- n"] rhe_of_int [of n] by simp
next
  case False
  then have "x \<noteq> of_int \<lfloor>x\<rfloor>"
    by (metis Ints_of_int)
  then have fl: "\<lfloor>- x\<rfloor> = - \<lfloor>x\<rfloor> - 1"
    by (simp add: ceiling_altdef floor_minus)
  show ?thesis
    unfolding round_half_even_def Let_def fl
    by (auto simp: algebra_simps)
qed

subsection \<open>The binary exponent\<close>

lemma powi_nat: "0 \<le> m \<Longrightarrow> (2::rat) powi m = 2 ^ nat m"
  by (simp add: power_int_def)

lemma bitlen_powi:
  assumes "0 < n"
  shows "(2::rat) powi (bitlen n - 1) \<le> of_int n" and "of_int n < (2::rat) powi bitlen n"
proof -
  have b: "1 \<le> bitlen n"
    using assms by (simp add: bitlen_alt_def)
  have "2 ^ nat (bitlen n - 1) \<le> n" and "n < 2 ^ nat (bitlen n)"
    using bitlen_bounds [OF assms] by simp_all
  then have "(of_int (2 ^ nat (bitlen n - 1)) :: rat) \<le> of_int n"
    and "(of_int n :: rat) < of_int (2 ^ nat (bitlen n))"
    by (simp_all only: of_int_le_iff of_int_less_iff)
  then show "(2::rat) powi (bitlen n - 1) \<le> of_int n" and "of_int n < (2::rat) powi bitlen n"
    using b by (simp_all add: powi_nat)
qed

lemma ilog2_bounds:
  assumes "0 < q"
  shows "2 powi ilog2 q \<le> q" and "q < 2 powi (ilog2 q + 1)"
proof -
  obtain n d where qd: "quotient_of q = (n, d)"
    by (cases "quotient_of q")
  then have d: "0 < d" and q: "q = of_int n / of_int d"
    using quotient_of_denom_pos [OF qd] quotient_of_div [OF qd] by simp_all
  have n: "0 < n"
    using assms d q by (simp add: zero_less_divide_iff)
  define k where "k = bitlen n - bitlen d"
  have "q < 2 powi bitlen n / 2 powi (bitlen d - 1)"
    unfolding q using bitlen_powi [OF n] bitlen_powi [OF d] d n
    by (intro frac_less) simp_all
  also have "\<dots> = 2 powi (bitlen n - (bitlen d - 1))"
    by (subst power_int_diff) simp_all
  finally have up: "q < 2 powi (k + 1)"
    by (simp add: k_def algebra_simps)
  have "(2::rat) powi (k - 1) = 2 powi (bitlen n - 1 - bitlen d)"
    by (simp add: k_def algebra_simps)
  also have "\<dots> = 2 powi (bitlen n - 1) / 2 powi bitlen d"
    by (subst power_int_diff) simp_all
  also have "\<dots> < q"
    unfolding q using bitlen_powi [OF n] bitlen_powi [OF d] d n
    by (intro frac_less2) simp_all
  finally have lo: "2 powi (k - 1) < q" .
  have il: "ilog2 q = (if 2 powi k \<le> q then k else k - 1)"
    by (simp add: ilog2_def qd k_def Let_def)
  show "2 powi ilog2 q \<le> q"
    using lo by (simp add: il)
  show "q < 2 powi (ilog2 q + 1)"
    using up by (simp add: il)
qed

lemma ilog2_mono:
  assumes "0 < a" "a \<le> b"
  shows "ilog2 a \<le> ilog2 b"
proof (rule ccontr)
  assume "\<not> ilog2 a \<le> ilog2 b"
  then have "ilog2 b + 1 \<le> ilog2 a"
    by simp
  then have "(2::rat) powi (ilog2 b + 1) \<le> 2 powi ilog2 a"
    by (intro power_int_increasing) simp_all
  also have "\<dots> \<le> a"
    using ilog2_bounds(1) [OF assms(1)] .
  finally show False
    using ilog2_bounds(2) [of b] assms by simp
qed

subsection \<open>Rounding to a float is monotone\<close>

lemma fl_minus: "fl (- q) = - fl q"
  by (simp add: fl_def Let_def rhe_minus)

lemma fl_nonneg:
  assumes "0 \<le> q"
  shows "0 \<le> fl q"
proof -
  have "0 \<le> round_half_even (q / 2 powi e)" for e
  proof -
    have "0 \<le> q / 2 powi e"
      using assms by simp
    then have "0 \<le> \<lfloor>q / 2 powi e\<rfloor>"
      by simp
    then show ?thesis
      using rhe_lower [of "q / 2 powi e"] by linarith
  qed
  then show ?thesis
    by (simp add: fl_def Let_def)
qed

lemma fl_mono_pos:
  assumes "0 < a" "a \<le> b"
  shows "fl a \<le> fl b"
proof -
  define ea where "ea = max (ilog2 a) (- 1022) - 52"
  define eb where "eb = max (ilog2 b) (- 1022) - 52"
  have b: "0 < b"
    using assms by simp
  have fa: "fl a = of_int (round_half_even (a / 2 powi ea)) * 2 powi ea"
    using assms(1) by (simp add: fl_def ea_def Let_def)
  have fb: "fl b = of_int (round_half_even (b / 2 powi eb)) * 2 powi eb"
    using b by (simp add: fl_def eb_def Let_def)
  have le: "ea \<le> eb"
    using ilog2_mono [OF assms] by (simp add: ea_def eb_def)
  show ?thesis
  proof (cases "ea = eb")
    case True
    have "a / 2 powi eb \<le> b / 2 powi eb"
      using assms(2) by (simp add: divide_right_mono)
    then have "round_half_even (a / 2 powi eb) \<le> round_half_even (b / 2 powi eb)"
      by (rule rhe_mono)
    then show ?thesis
      unfolding fa fb True by (simp add: mult_right_mono)
  next
    case False
    with le have lt: "ea + 1 \<le> eb"
      by simp
    then have ib: "ilog2 b = eb + 52"
      by (auto simp: ea_def eb_def max_def split: if_splits)
    have "a < 2 powi (ilog2 a + 1)"
      using ilog2_bounds(2) [OF assms(1)] .
    also have "\<dots> \<le> 2 powi (ea + 53)"
      by (intro power_int_increasing) (simp_all add: ea_def)
    also have "\<dots> = 2 powi ea * 2 ^ 53"
      by (subst power_int_add) simp_all
    finally have "a / 2 powi ea \<le> of_int (2 ^ 53)"
      by (simp add: pos_divide_le_eq mult.commute)
    then have "round_half_even (a / 2 powi ea) \<le> 2 ^ 53"
      using rhe_mono [of "a / 2 powi ea" "of_int (2 ^ 53)"] by (simp only: rhe_of_int)
    then have "(of_int (round_half_even (a / 2 powi ea)) :: rat) \<le> of_int (2 ^ 53)"
      by (simp only: of_int_le_iff)
    then have "fl a \<le> 2 ^ 53 * 2 powi ea"
      unfolding fa by (simp add: mult_right_mono)
    also have "\<dots> = 2 powi (ea + 53)"
      by (subst power_int_add) simp_all
    also have "\<dots> \<le> 2 powi (eb + 52)"
      using lt by (intro power_int_increasing) simp_all
    finally have up: "fl a \<le> 2 powi (eb + 52)" .
    have "2 powi eb * 2 ^ 52 = (2::rat) powi (eb + 52)"
      by (subst power_int_add) simp_all
    also have "\<dots> \<le> b"
      using ilog2_bounds(1) [OF b] by (simp add: ib)
    finally have "of_int (2 ^ 52) \<le> b / 2 powi eb"
      by (simp add: pos_le_divide_eq mult.commute)
    then have "2 ^ 52 \<le> round_half_even (b / 2 powi eb)"
      using rhe_mono [of "of_int (2 ^ 52)" "b / 2 powi eb"] by (simp only: rhe_of_int)
    then have "(of_int (2 ^ 52) :: rat) \<le> of_int (round_half_even (b / 2 powi eb))"
      by (simp only: of_int_le_iff)
    then have "2 ^ 52 * 2 powi eb \<le> fl b"
      unfolding fb by (simp add: mult_right_mono)
    moreover have "2 ^ 52 * 2 powi eb = (2::rat) powi (eb + 52)"
      by (subst power_int_add) simp_all
    ultimately show ?thesis
      using up by simp
  qed
qed

lemma fl_mono:
  assumes "a \<le> b"
  shows "fl a \<le> fl b"
proof -
  consider "0 < a" | "a \<le> 0" "0 \<le> b" | "b < 0"
    using assms by linarith
  then show ?thesis
  proof cases
    case 1
    then show ?thesis
      using assms by (rule fl_mono_pos)
  next
    case 2
    have "fl a \<le> 0"
      using fl_nonneg [of "- a"] 2(1) by (simp add: fl_minus)
    moreover have "0 \<le> fl b"
      using 2(2) by (rule fl_nonneg)
    ultimately show ?thesis
      by simp
  next
    case 3
    then have "fl (- b) \<le> fl (- a)"
      using assms by (intro fl_mono_pos) simp_all
    then show ?thesis
      by (simp add: fl_minus)
  qed
qed

subsection \<open>Bounds of the scorer's arithmetic\<close>

lemma fl_0: "fl 0 = 0"
  by (simp add: fl_def)

lemma fl_1: "fl 1 = 1"
  by code_simp

lemma fl_half: "fl (1 / 2) = 1 / 2"
  by code_simp

lemma fl_unit:
  assumes "0 \<le> x" "x \<le> 1"
  shows "0 \<le> fl x" and "fl x \<le> 1"
  using fl_mono [OF assms(1)] fl_mono [OF assms(2)] by (simp_all add: fl_0 fl_1)

lemma round_py_mono: "x \<le> y \<Longrightarrow> round_py x n \<le> round_py y n"
  unfolding round_py_def
  by (intro fl_mono divide_right_mono) (simp_all add: rhe_mono)

lemma round_py_0: "round_py 0 n = 0"
  by (simp add: round_py_def round_half_even_def fl_0)

lemma round_py_1_4: "round_py 1 4 = 1"
  by code_simp

lemma norm_py_unit: "0 \<le> norm_py v lo hi" "norm_py v lo hi \<le> 1"
  by (simp_all add: norm_py_def split: option.split)

lemma norm_py_clamp: "norm_py (Some p) 100 50000 = spec_normalize p 100 50000"
  by (simp add: norm_py_def spec_normalize_def spec_clamp_def max_def min_def)

lemma c35_fix: "fl (fl (35 / 100)) = fl (35 / 100)"
  by code_simp

lemma c15_fix: "fl (fl (15 / 100)) = fl (15 / 100)"
  by code_simp

lemma blend_top: "fl (fl (1 / 2 + fl (35 / 100)) + fl (15 / 100)) = 1"
  by code_simp

lemma fmul_unit:
  assumes "0 \<le> k" "fl k = k" "0 \<le> b" "b \<le> 1"
  shows "0 \<le> fmul k b" and "fmul k b \<le> k"
proof -
  show "0 \<le> fmul k b"
    unfolding fmul_def using assms by (intro fl_nonneg) simp
  have "fl (k * b) \<le> fl k"
    using assms by (intro fl_mono) (simp add: mult_left_le)
  then show "fmul k b \<le> k"
    by (simp add: fmul_def assms(2))
qed

lemma fadd_bounds:
  assumes "0 \<le> x" "x \<le> u" "0 \<le> y" "y \<le> v"
  shows "0 \<le> fadd x y" and "fadd x y \<le> fl (u + v)"
  unfolding fadd_def using assms by (auto intro!: fl_nonneg fl_mono)

lemma blend_unit:
  assumes a: "0 \<le> a" "a \<le> 1" and b: "0 \<le> b" "b \<le> 1" and c: "0 \<le> c" "c \<le> 1"
  shows "0 \<le> round_py (fadd (fadd (fmul (1 / 2) a) (fmul (fl (35 / 100)) b)) (fmul (fl (15 / 100)) c)) 4"
    and "round_py (fadd (fadd (fmul (1 / 2) a) (fmul (fl (35 / 100)) b)) (fmul (fl (15 / 100)) c)) 4 \<le> 1"
proof -
  let ?t1 = "fmul (1 / 2) a" and ?t2 = "fmul (fl (35 / 100)) b" and ?t3 = "fmul (fl (15 / 100)) c"
  have k35: "0 \<le> fl (35 / 100)" and k15: "0 \<le> fl (15 / 100)"
    by (simp_all add: fl_nonneg)
  have half: "(0::rat) \<le> 1 / 2"
    by simp
  note t1 = fmul_unit [OF half fl_half a]
  note t2 = fmul_unit [OF k35 c35_fix b]
  note t3 = fmul_unit [OF k15 c15_fix c]
  note s1 = fadd_bounds [OF t1 t2]
  note s2 = fadd_bounds [OF s1 t3]
  show "0 \<le> round_py (fadd (fadd ?t1 ?t2) ?t3) 4"
    using round_py_mono [OF s2(1), of 4] by (simp only: round_py_0)
  have "round_py (fadd (fadd ?t1 ?t2) ?t3) 4 \<le> round_py (fl (fl (1 / 2 + fl (35 / 100)) + fl (15 / 100))) 4"
    using s2(2) by (rule round_py_mono)
  then show "round_py (fadd (fadd ?t1 ?t2) ?t3) 4 \<le> 1"
    by (simp only: blend_top round_py_1_4)
qed

lemma price_score_unit:
  "0 \<le> fsub 1 (norm_py v lo hi)" "fsub 1 (norm_py v lo hi) \<le> 1"
  unfolding fsub_def using norm_py_unit [of v lo hi] by (auto intro!: fl_unit)

lemma rating_score_unit:
  assumes "0 \<le> r" "r \<le> 5"
  shows "0 \<le> fdiv r 5" "fdiv r 5 \<le> 1"
  unfolding fdiv_def using assms by (auto intro!: fl_unit)

lemma reviews_score_nonneg: "0 \<le> l \<Longrightarrow> 0 \<le> fdiv l 3"
  unfolding fdiv_def by (intro fl_nonneg) simp

lemma ref_lib_log10_nonneg: "1 \<le> n \<Longrightarrow> 0 \<le> math_log10 ref_lib n"
  by (simp add: ref_lib_def floorlog_def)

section \<open>Properties of sorting\<close>

lemma mset_list_sort: "mset (list_sort key r xs) = mset xs"
  by (simp add: list_sort_def)

lemma set_list_sort: "set (list_sort key r xs) = set xs"
  by (simp add: list_sort_def)

lemma length_list_sort: "length (list_sort key r xs) = length xs"
  by (simp add: list_sort_def)

lemma list_sort_ascending: "sorted (map key (list_sort key False xs))"
  by (simp add: list_sort_def)

lemma list_sort_descending: "sorted_wrt (\<lambda>a b. b \<le> a) (map key (list_sort key True xs))"
proof -
  have "sorted (map key (sort_key key (rev xs)))"
    by simp
  then have "sorted_wrt (\<lambda>a b. b \<le> a) (rev (map key (sort_key key (rev xs))))"
    by (simp only: sorted_wrt_rev)
  then show ?thesis
    by (simp add: list_sort_def rev_map)
qed

lemma list_sort_stable:
  "filter (\<lambda>x. key x = k) (list_sort key r xs) = filter (\<lambda>x. key x = k) xs"
  by (simp add: list_sort_def sort_key_stable rev_filter [symmetric])

lemma stable_sort_unique:
  assumes "mset ys = mset xs"
    and "sorted (map key ys)"
    and "\<And>k. filter (\<lambda>x. key x = k) ys = filter (\<lambda>x. key x = k) xs"
  shows "ys = list_sort key False xs"
proof -
  have "filter (\<lambda>x. key k = key x) ys = filter (\<lambda>x. key k = key x) xs" for k
    using assms(3) [of "key k"] by (simp add: eq_commute)
  then have "sort_key key xs = ys"
    using assms(1,2) by (intro properties_for_sort_key) simp_all
  then show ?thesis
    by (simp add: list_sort_def)
qed

lemma stable_sort_reverse_unique:
  assumes "mset ys = mset xs"
    and "sorted_wrt (\<lambda>a b. b \<le> a) (map key ys)"
    and "\<And>k. filter (\<lambda>x. key x = k) ys = filter (\<lambda>x. key x = k) xs"
  shows "ys = list_sort key True xs"
proof -
  have "sorted (map key (rev ys))"
    using assms(2) by (simp add: rev_map [symmetric] sorted_wrt_rev)
  moreover have "mset (rev ys) = mset (rev xs)"
    using assms(1) by simp
  moreover have "filter (\<lambda>x. key x = k) (rev ys) = filter (\<lambda>x. key x = k) (rev xs)" for k
    using assms(3) [of k] by (simp add: rev_filter [symmetric])
  ultimately have "rev ys = list_sort key False (rev xs)"
    by (intro stable_sort_unique)
  then have "ys = rev (list_sort key False (rev xs))"
    by (metis rev_rev_ident)
  then show ?thesis
    by (simp add: list_sort_def)
qed

lemma filter_distinct_key:
  assumes "distinct (map key xs)"
  shows "length (filter (\<lambda>x. key x = k) xs) \<le> 1"
  using assms by (induction xs) (auto simp: filter_empty_conv image_iff)

lemma rev_short: "length xs \<le> 1 \<Longrightarrow> rev xs = xs"
  by (cases xs) auto

lemma list_sort_reverse_distinct:
  assumes "distinct (map key xs)"
  shows "rev (list_sort key False xs) = list_sort key True xs"
proof -
  have "filter (\<lambda>x. key x = k) (sort_key key xs) = filter (\<lambda>x. key x = k) (rev xs)" for k
    using rev_short [OF filter_distinct_key [OF assms, of k]]
    by (simp add: sort_key_stable rev_filter [symmetric])
  then have "list_sort key False (rev xs) = sort_key key xs"
    by (intro stable_sort_unique [symmetric]) simp_all
  then show ?thesis
    by (simp add: list_sort_def)
qed

section \<open>The deals of the synthesizer\<close>

subsection \<open>Validation\<close>

lemma error_unique: "(e::error) = ValidationError"
  by (cases e)

lemma try_map_Inr: "try_map f xs = Inr ys \<longleftrightarrow> list_all2 (\<lambda>x y. f x = Inr y) xs ys"
proof (induction xs arbitrary: ys)
  case Nil
  show ?case
    by auto
next
  case (Cons x xs)
  show ?case
    using Cons [symmetric] by (auto simp: list_all2_Cons1 split: sum.splits)
qed

lemma try_map_ok:
  assumes "\<forall>x \<in> set xs. \<exists>y. f x = Inr y"
  shows "\<exists>ys. try_map f xs = Inr ys"
  using assms by (induction xs) (auto split: sum.splits)

lemma Deal_new_keeps:
  assumes "Deal_new L d = Inr d'"
  shows "platform d' = platform d"
    and "price d' = price d"
    and "original_price d' = original_price d"
    and "discount_percent d' = discount_percent d"
    and "quality_score d' = quality_score d"
  using assms by (auto simp: Deal_new_def split: sum.splits option.splits)

lemma Deal_new_ok:
  assumes "\<forall>u \<in> set (image_urls d). \<exists>v. HttpUrl L u = Inr v"
    and "product_url d = Some u" and "HttpUrl L u = Inr v"
  shows "\<exists>d'. Deal_new L d = Inr d'"
proof -
  obtain imgs where "try_map (HttpUrl L) (image_urls d) = Inr imgs"
    using try_map_ok [OF assms(1)] by blast
  then show ?thesis
    using assms(2,3) by (simp add: Deal_new_def)
qed

lemma Deal_new_long:
  assumes "product_url d = Some u" and "HttpUrl_max_length < length u"
  shows "Deal_new L d = Inl ValidationError"
  using assms by (auto simp: Deal_new_def HttpUrl_def error_unique split: sum.splits)

subsection \<open>The fields of a deal\<close>

lemma stub_deal_fields:
  assumes "stub_deal L now q (i, pf, delta, rt, rv) = Inr d"
  shows "platform d = pf"
    and "price d = round_py (max 99 (fadd base_price delta)) 2"
    and "original_price d = Some (round_py (fmul (max 99 (fadd base_price delta)) (5 / 4)) 2)"
    and "discount_percent d =
      Some (round_py (fmul (fsub 1 (fdiv (max 99 (fadd base_price delta))
        (fmul (max 99 (fadd base_price delta)) (5 / 4)))) 100) 2)"
  using assms Deal_new_keeps [of L _ d]
  by (simp_all add: stub_deal_def Let_def)

lemma stub_deal_ok:
  assumes "\<forall>u \<in> set (stub_urls q). \<exists>v. HttpUrl L u = Inr v" and "pf \<in> set PLATFORMS"
  shows "\<exists>d. stub_deal L now q (i, pf, delta, rt, rv) = Inr d"
proof -
  let ?u = "''https://'' @ pf @ ''.com/s?k='' @ str_replace CHR '' '' CHR ''+'' q"
  have "?u \<in> set (stub_urls q)"
    using assms(2) by (simp add: stub_urls_def)
  then obtain v where v: "HttpUrl L ?u = Inr v"
    using assms(1) by blast
  have "\<forall>u \<in> set demo_images. \<exists>v. HttpUrl L u = Inr v"
    using assms(1) by (simp add: stub_urls_def)
  then show ?thesis
    unfolding stub_deal_def Let_def prod.case
    by (intro Deal_new_ok [where u = ?u and v = v]) (use v in simp_all)
qed

lemma stub_deal_long:
  assumes "2059 \<le> length q"
  shows "stub_deal L now q (i, ''flipkart'', delta, rt, rv) = Inl ValidationError"
  unfolding stub_deal_def Let_def prod.case
  using assms
  by (intro Deal_new_long [where u = "''https://'' @ ''flipkart'' @ ''.com/s?k='' @ str_replace CHR '' '' CHR ''+'' q"])
     (simp_all add: HttpUrl_max_length_def str_replace_def)

subsection \<open>The four deals\<close>

lemma stub_deals_unfold:
  "stub_deals L now q =
     try_map (stub_deal L now q)
       [(0, ''amazon'', 0, fl (45 / 10), 1250),
        (1, ''flipkart'', - 50, fl (43 / 10), 980),
        (2, ''myntra'', 120, fl (46 / 10), 540),
        (3, ''ajio'', - 100, fl (42 / 10), 330)]"
  by (simp add: stub_deals_def platforms_def eval_nat_numeral)

lemma stub_price_amazon: "round_py (max 99 (fadd base_price 0)) 2 = 999"
  by code_simp

lemma stub_price_flipkart: "round_py (max 99 (fadd base_price (- 50))) 2 = 949"
  by code_simp

lemma stub_price_myntra: "round_py (max 99 (fadd base_price 120)) 2 = 1119"
  by code_simp

lemma stub_price_ajio: "round_py (max 99 (fadd base_price (- 100))) 2 = 899"
  by code_simp

lemmas stub_price = stub_price_amazon stub_price_flipkart stub_price_myntra stub_price_ajio

lemma stub_discount_amazon:
  "round_py (fmul (fsub 1 (fdiv (max 99 (fadd base_price 0))
        (fmul (max 99 (fadd base_price 0)) (5 / 4)))) 100) 2 = 20"
  by code_simp

lemma stub_discount_flipkart:
  "round_py (fmul (fsub 1 (fdiv (max 99 (fadd base_price (- 50)))
        (fmul (max 99 (fadd base_price (- 50))) (5 / 4)))) 100) 2 = 20"
  by code_simp

lemma stub_discount_myntra:
  "round_py (fmul (fsub 1 (fdiv (max 99 (fadd base_price 120))
        (fmul (max 99 (fadd base_price 120)) (5 / 4)))) 100) 2 = 20"
  by code_simp

lemma stub_discount_ajio:
  "round_py (fmul (fsub 1 (fdiv (max 99 (fadd base_price (- 100)))
        (fmul (max 99 (fadd base_price (- 100))) (5 / 4)))) 100) 2 = 20"
  by code_simp

lemmas stub_discount = stub_discount_amazon stub_discount_flipkart stub_discount_myntra stub_discount_ajio

lemma stub_original_amazon: "round_py (fmul (max 99 (fadd base_price 0)) (5 / 4)) 2 = 4995 / 4"
  by code_simp

lemma stub_original_flipkart: "round_py (fmul (max 99 (fadd base_price (- 50))) (5 / 4)) 2 = 4745 / 4"
  by code_simp

lemma stub_original_myntra: "round_py (fmul (max 99 (fadd base_price 120)) (5 / 4)) 2 = 5595 / 4"
  by code_simp

lemma stub_original_ajio: "round_py (fmul (max 99 (fadd base_price (- 100))) (5 / 4)) 2 = 4495 / 4"
  by code_simp

lemmas stub_original = stub_original_amazon stub_original_flipkart stub_original_myntra stub_original_ajio

lemma stub_deals_Inr:
  assumes "stub_deals L now q = Inr us"
  obtains d1 d2 d3 d4 where "us = [d1, d2, d3, d4]"
    and "stub_deal L now q (0, ''amazon'', 0, fl (45 / 10), 1250) = Inr d1"
    and "stub_deal L now q (1, ''flipkart'', - 50, fl (43 / 10), 980) = Inr d2"
    and "stub_deal L now q (2, ''myntra'', 120, fl (46 / 10), 540) = Inr d3"
    and "stub_deal L now q (3, ''ajio'', - 100, fl (42 / 10), 330) = Inr d4"
  using assms unfolding stub_deals_unfold try_map_Inr
  by (auto simp: list_all2_Cons1)

lemma stub_deals_platforms:
  assumes "stub_deals L now q = Inr us"
  shows "map platform us = PLATFORMS"
  using assms by (elim stub_deals_Inr) (simp add: stub_deal_fields PLATFORMS_def)

lemma stub_deals_prices:
  assumes "stub_deals L now q = Inr us"
  shows "map price us = [999, 949, 1119, 899]"
  using assms by (elim stub_deals_Inr) (simp add: stub_deal_fields stub_price)

lemma stub_deals_discounts:
  assumes "stub_deals L now q = Inr us"
  shows "map discount_percent us = [Some 20, Some 20, Some 20, Some 20]"
  using assms by (elim stub_deals_Inr) (simp add: stub_deal_fields stub_discount)

lemma stub_deals_originals:
  assumes "stub_deals L now q = Inr us"
  shows "map original_price us = [Some (4995 / 4), Some (4745 / 4), Some (5595 / 4), Some (4495 / 4)]"
  using assms by (elim stub_deals_Inr) (simp add: stub_deal_fields stub_original)

lemma stub_deals_ok:
  assumes "\<forall>u \<in> set (stub_urls q). \<exists>v. HttpUrl L u = Inr v"
  shows "\<exists>us. stub_deals L now q = Inr us"
  unfolding stub_deals_unfold
  by (intro try_map_ok) (auto simp: PLATFORMS_def intro!: stub_deal_ok [OF assms])

lemma stub_deals_long:
  assumes "2059 \<le> length q"
  shows "stub_deals L now q = Inl ValidationError"
  unfolding stub_deals_unfold
  by (simp add: stub_deal_long [OF assms] error_unique split: sum.split)

lemma scrape_stub_Inr:
  "scrape_stub L now q = Inr ds \<longleftrightarrow>
     (\<exists>us. stub_deals L now q = Inr us \<and> ds = list_sort (\<lambda>d. or0 (quality_score d)) True us)"
  by (auto simp: scrape_stub_def split: sum.splits)

lemma scrape_stub_long:
  assumes "2059 \<le> length q"
  shows "scrape_stub L now q = Inl ValidationError"
  by (simp add: scrape_stub_def stub_deals_long [OF assms])

lemma ref_lib_urls: "\<forall>u \<in> set (stub_urls ''laptop''). \<exists>v. HttpUrl ref_lib u = Inr v"
  by (simp add: stub_urls_def demo_images_def PLATFORMS_def HttpUrl_def HttpUrl_max_length_def
      ref_lib_def str_replace_def)

section \<open>Boundary cases of the scorer\<close>

lemma score_deal_present:
  "score_deal L (Some p) (Some r) (Some n) =
     round_py
       (fadd (fadd (fmul (1 / 2) (fsub 1 (norm_py (Some p) 100 50000))) (fmul (fl (35 / 100)) (fdiv r 5)))
             (fmul (fl (15 / 100)) (min 1 (fdiv (math_log10 L (max 1 n)) 3))))
       4"
  by (simp add: score_deal_def)

lemma boundary_low:
  "round_py
     (fadd (fadd (fmul (1 / 2) (fsub 1 (norm_py (Some 100) 100 50000))) (fmul (fl (35 / 100)) (fdiv 0 5)))
           (fmul (fl (15 / 100)) (min 1 (fdiv 0 3))))
     4 = 1 / 2"
  by code_simp

lemma boundary_high:
  "round_py
     (fadd (fadd (fmul (1 / 2) (fsub 1 (norm_py (Some 50000) 100 50000))) (fmul (fl (35 / 100)) (fdiv 5 5)))
           (fmul (fl (15 / 100)) (min 1 (fdiv 3 3))))
     4 = 1 / 2"
  by code_simp

lemma ref_lib_log10_1000: "math_log10 ref_lib 1000 = 3"
  by code_simp

lemma ref_lib_log10_1: "math_log10 ref_lib 1 = 0"
  by code_simp

text \<open>Whatever the library's logarithm, the score of the second boundary case is at most one half.\<close>

lemma c35_c15: "fl (fl (35 / 100) + fl (15 / 100)) = 1 / 2"
  by code_simp

lemma boundary_high_terms:
  "fadd (fmul (1 / 2) (fsub 1 (norm_py (Some 50000) 100 50000))) (fmul (fl (35 / 100)) (fdiv 5 5)) = fl (35 / 100)"
  by code_simp

lemma round_py_half: "round_py (1 / 2) 4 = 1 / 2"
  by code_simp

lemma boundary_high_upper: "score_deal L (Some 50000) (Some 5) (Some 1000) \<le> 1 / 2"
proof -
  define c where "c = min 1 (fdiv (math_log10 L (max 1 1000)) 3)"
  have c: "c \<le> 1"
    by (simp add: c_def)
  have k15: "0 \<le> fl (15 / 100)"
    by (simp add: fl_nonneg)
  have "fl (fl (15 / 100) * c) \<le> fl (fl (15 / 100))"
    using c k15 by (intro fl_mono) (simp add: mult_left_le)
  then have t3: "fmul (fl (15 / 100)) c \<le> fl (15 / 100)"
    by (simp only: fmul_def c15_fix)
  have "fadd (fl (35 / 100)) (fmul (fl (15 / 100)) c) \<le> fl (fl (35 / 100) + fl (15 / 100))"
    unfolding fadd_def using t3 by (intro fl_mono) simp
  then have "fadd (fl (35 / 100)) (fmul (fl (15 / 100)) c) \<le> 1 / 2"
    by (simp only: c35_c15)
  then have "round_py (fadd (fl (35 / 100)) (fmul (fl (15 / 100)) c)) 4 \<le> round_py (1 / 2) 4"
    by (rule round_py_mono)
  then show ?thesis
    unfolding score_deal_present boundary_high_terms c_def by (simp only: round_py_half)
qed

section \<open>The scorer\<close>

text \<open>
  Claim C1. For every optional price, optional rating and optional review count, the score
  computed by \<open>score_deal\<close> is the specification's composite
  \<open>0.5 * priceScore + 0.35 * ratingScore + 0.15 * reviewsScore\<close> rounded to 4 decimal places,
  with \<open>priceScore = 1 - clamp((price - 100) / (50000 - 100), 0, 1)\<close>, \<open>ratingScore = rating / 5\<close>
  and \<open>reviewsScore = min(1, log10(max(1, reviewCount)) / 3)\<close>, each 0 when its input is absent.
\<close>

theorem C1_score_is_composite: "score_deal L pr rt rv = spec_score L pr rt rv"
  by (simp add: score_deal_def spec_score_def spec_priceScore_def spec_ratingScore_def spec_reviewsScore_def
      norm_py_clamp Let_def split: option.split)

text \<open>
  Claim C2, as the specification states it, fails in its second half: at price 50000,
  rating 5 and 1000 reviews the price score is 0, and the score is 0.5, at distance 0.35
  from the stated 0.85.
\<close>

theorem C2_boundary_counterexample:
  "\<bar>score_deal ref_lib (Some 50000) (Some 5) (Some 1000) - 85 / 100\<bar> = 35 / 100"
proof -
  have "score_deal ref_lib (Some 50000) (Some 5) (Some 1000) = 1 / 2"
    unfolding score_deal_present by (simp only: max.absorb2 ref_lib_log10_1000 boundary_high)
  then show ?thesis
    by simp
qed

text \<open>
  Claim C2, amended. With a library whose \<open>log10\<close> is exact at 1 and at 1000, the score
  of price 100, rating 0 and 0 reviews is 0.5, and the score of price 50000, rating 5 and
  1000 reviews is 0.5 as well.
\<close>

theorem C2_boundary:
  assumes "math_log10 L 1 = 0" and "math_log10 L 1000 = 3"
  shows "score_deal L (Some 100) (Some 0) (Some 0) = 1 / 2 \<and>
         score_deal L (Some 50000) (Some 5) (Some 1000) = 1 / 2"
proof
  have "max 1 (0::int) = 1"
    by simp
  then show "score_deal L (Some 100) (Some 0) (Some 0) = 1 / 2"
    unfolding score_deal_present by (simp only: assms boundary_low)
  have "max 1 (1000::int) = 1000"
    by simp
  then show "score_deal L (Some 50000) (Some 5) (Some 1000) = 1 / 2"
    unfolding score_deal_present by (simp only: assms boundary_high)
qed

theorem C2_boundary_witness:
  "math_log10 ref_lib 1 = 0 \<and> math_log10 ref_lib 1000 = 3 \<and>
   score_deal ref_lib (Some 100) (Some 0) (Some 0) = 1 / 2 \<and>
   score_deal ref_lib (Some 50000) (Some 5) (Some 1000) = 1 / 2"
  using C2_boundary [OF ref_lib_log10_1 ref_lib_log10_1000] ref_lib_log10_1 ref_lib_log10_1000
  by simp

text \<open>
  Claim C3. For every price \<open>\<ge> 0\<close>, every rating in \<open>[0, 5]\<close> and every non-negative review
  count, each of them possibly absent, the score lies in \<open>[0, 1]\<close>. The library's \<open>log10\<close>
  is taken to be non-negative from 1 on. The bound on the price is not used: the price
  score is clamped.
\<close>

theorem C3_score_in_unit_interval:
  assumes lib: "\<And>n. 1 \<le> n \<Longrightarrow> 0 \<le> math_log10 L n"
    and pr: "\<And>p. pr = Some p \<Longrightarrow> 0 \<le> p"
    and rt: "\<And>r. rt = Some r \<Longrightarrow> 0 \<le> r \<and> r \<le> 5"
    and rv: "\<And>n. rv = Some n \<Longrightarrow> 0 \<le> n"
  shows "0 \<le> score_deal L pr rt rv \<and> score_deal L pr rt rv \<le> 1"
proof -
  define a where "a = (case pr of None \<Rightarrow> 0 | Some p \<Rightarrow> fsub 1 (norm_py (Some p) 100 50000))"
  define b where "b = (case rt of None \<Rightarrow> 0 | Some r \<Rightarrow> fdiv r 5)"
  define c where "c = (case rv of None \<Rightarrow> 0 | Some n \<Rightarrow> min 1 (fdiv (math_log10 L (max 1 n)) 3))"
  have a: "0 \<le> a" "a \<le> 1"
    by (simp_all add: a_def price_score_unit split: option.split)
  have b: "0 \<le> b" "b \<le> 1"
    using rt by (auto simp: b_def rating_score_unit split: option.split)
  have "0 \<le> math_log10 L (max 1 n)" for n
    by (rule lib) simp
  then have c: "0 \<le> c" "c \<le> 1"
    by (simp_all add: c_def reviews_score_nonneg split: option.split)
  have "score_deal L pr rt rv =
      round_py (fadd (fadd (fmul (1 / 2) a) (fmul (fl (35 / 100)) b)) (fmul (fl (15 / 100)) c)) 4"
    by (simp add: score_deal_def a_def b_def c_def)
  then show ?thesis
    using blend_unit [OF a b c] by simp
qed

theorem C3_score_in_unit_interval_witness:
  "(0::rat) \<le> 999 \<and> (0::rat) \<le> 9 / 2 \<and> (9 / 2::rat) \<le> 5 \<and> (0::int) \<le> 1250 \<and>
   0 \<le> score_deal ref_lib (Some 999) (Some (9 / 2)) (Some 1250) \<and>
   score_deal ref_lib (Some 999) (Some (9 / 2)) (Some 1250) \<le> 1"
  using C3_score_in_unit_interval [of ref_lib "Some 999" "Some (9 / 2)" "Some 1250"]
    ref_lib_log10_nonneg
  by simp

section \<open>The synthesizer\<close>

text \<open>
  Claim C4, as the specification states it, fails: not every query gives a list of deals.
  With a query of 2059 characters the product URL of the second platform has 2084
  characters, the construction of its deal raises \<^verbatim>\<open>ValidationError\<close>, and so does
  \<open>scrape_stub\<close>; by \<open>scrape_stub_long\<close> this is so for every library and every query of
  that length or more.
\<close>

theorem C4_synthesize_counterexample:
  "scrape_stub ref_lib 0 (replicate 2059 CHR ''a'') = Inl ValidationError"
  by (rule scrape_stub_long) simp

text \<open>
  Claim C4, amended. For every query whose product URLs pydantic accepts, as it accepts
  the four image URLs, \<open>scrape_stub\<close> returns exactly one deal for each of the four
  platforms, every deal has a price of at least 99, and the list is in descending order of
  quality score, deals of equal score in the order of the platform tuples: for every score
  the deals with that score stand as they stood when the loop ended, in tuple order.
\<close>

theorem C4_synthesize:
  assumes "\<forall>u \<in> set (stub_urls q). \<exists>v. HttpUrl L u = Inr v"
  shows "\<exists>ds us. scrape_stub L now q = Inr ds \<and> stub_deals L now q = Inr us \<and>
     length ds = length PLATFORMS \<and>
     length PLATFORMS = 4 \<and>
     mset (map platform ds) = mset PLATFORMS \<and>
     distinct PLATFORMS \<and>
     (\<forall>d \<in> set ds. 99 \<le> price d) \<and>
     sorted_wrt (\<lambda>a b. b \<le> a) (map (\<lambda>d. or0 (quality_score d)) ds) \<and>
     (\<forall>k. filter (\<lambda>d. or0 (quality_score d) = k) ds = filter (\<lambda>d. or0 (quality_score d) = k) us) \<and>
     map platform us = PLATFORMS"
proof -
  obtain us where us: "stub_deals L now q = Inr us"
    using stub_deals_ok [OF assms] by blast
  define ds where "ds = list_sort (\<lambda>d. or0 (quality_score d)) True us"
  have run: "scrape_stub L now q = Inr ds"
    by (simp add: scrape_stub_Inr us ds_def)
  have pf: "map platform us = PLATFORMS"
    using us by (rule stub_deals_platforms)
  have len: "length ds = length PLATFORMS"
    using arg_cong [OF pf, of length] by (simp add: ds_def length_list_sort)
  have "mset (map platform ds) = mset (map platform us)"
    by (simp add: ds_def mset_list_sort)
  then have ms: "mset (map platform ds) = mset PLATFORMS"
    by (simp only: pf)
  have pr: "\<forall>d \<in> set ds. 99 \<le> price d"
  proof
    fix d
    assume "d \<in> set ds"
    then have "price d \<in> set (map price us)"
      by (simp add: ds_def set_list_sort)
    then show "99 \<le> price d"
      unfolding stub_deals_prices [OF us] by auto
  qed
  have srt: "sorted_wrt (\<lambda>a b. b \<le> a) (map (\<lambda>d. or0 (quality_score d)) ds)"
    unfolding ds_def by (rule list_sort_descending)
  have stb: "\<forall>k. filter (\<lambda>d. or0 (quality_score d) = k) ds = filter (\<lambda>d. or0 (quality_score d) = k) us"
    unfolding ds_def by (simp add: list_sort_stable)
  have four: "length PLATFORMS = 4" "distinct PLATFORMS"
    by (simp_all add: PLATFORMS_def)
  show ?thesis
    by (rule exI [of _ ds], rule exI [of _ us]) (intro conjI run us len four ms pr srt stb pf)
qed

theorem C4_synthesize_witness:
  "list_all (\<lambda>u. HttpUrl ref_lib u = Inr u) (stub_urls ''laptop'') \<and>
   (\<exists>ds. scrape_stub ref_lib 0 ''laptop'' = Inr ds \<and> length ds = 4 \<and>
      set (map price ds) = {999, 949, 1119, 899} \<and> list_all (\<lambda>d. 99 \<le> price d) ds)"
proof -
  have urls: "list_all (\<lambda>u. HttpUrl ref_lib u = Inr u) (stub_urls ''laptop'')"
    by (simp add: stub_urls_def demo_images_def PLATFORMS_def HttpUrl_def HttpUrl_max_length_def
        ref_lib_def str_replace_def)
  from C4_synthesize [OF ref_lib_urls, of 0]
  obtain ds us where run: "scrape_stub ref_lib 0 ''laptop'' = Inr ds"
    and us: "stub_deals ref_lib 0 ''laptop'' = Inr us"
    and len: "length ds = length PLATFORMS" "length PLATFORMS = 4"
    and pr: "\<forall>d \<in> set ds. 99 \<le> price d"
    by (elim exE conjE)
  have "ds = list_sort (\<lambda>d. or0 (quality_score d)) True us"
    using run us by (simp add: scrape_stub_Inr)
  then have "set (map price ds) = set (map price us)"
    by (simp add: set_list_sort)
  then have "set (map price ds) = {999, 949, 1119, 899}"
    by (simp only: stub_deals_prices [OF us]) simp
  moreover have "length ds = 4"
    using len by simp
  moreover have "list_all (\<lambda>d. 99 \<le> price d) ds"
    using pr by (simp add: list_all_iff)
  ultimately have "scrape_stub ref_lib 0 ''laptop'' = Inr ds \<and> length ds = 4 \<and>
      set (map price ds) = {999, 949, 1119, 899} \<and> list_all (\<lambda>d. 99 \<le> price d) ds"
    using run by (intro conjI)
  then have "\<exists>ds. scrape_stub ref_lib 0 ''laptop'' = Inr ds \<and> length ds = 4 \<and>
      set (map price ds) = {999, 949, 1119, 899} \<and> list_all (\<lambda>d. 99 \<le> price d) ds"
    by (rule exI)
  with urls show ?thesis
    by (rule conjI)
qed

text \<open>
  Claim C5. Every deal that the synthesizer produces has the discount percentage 20.0
  exactly, and its original price is exactly 1.25 times its price.
\<close>

theorem C5_discount:
  assumes "scrape_stub L now q = Inr ds"
  shows "\<forall>d \<in> set ds. discount_percent d = Some 20 \<and> original_price d = Some (price d * (5 / 4))"
proof -
  obtain us where us: "stub_deals L now q = Inr us"
    and ds: "ds = list_sort (\<lambda>d. or0 (quality_score d)) True us"
    using assms by (auto simp: scrape_stub_Inr)
  have "\<forall>d \<in> set us. discount_percent d = Some 20 \<and> original_price d = Some (price d * (5 / 4))"
    using us by (elim stub_deals_Inr) (simp add: stub_deal_fields stub_discount stub_original stub_price)
  then show ?thesis
    by (simp add: ds set_list_sort)
qed

theorem C5_discount_witness:
  "\<exists>ds. scrape_stub ref_lib 0 ''laptop'' = Inr ds \<and> length ds = 4 \<and>
     map discount_percent ds = [Some 20, Some 20, Some 20, Some 20]"
proof -
  obtain us where us: "stub_deals ref_lib 0 ''laptop'' = Inr us"
    using stub_deals_ok [OF ref_lib_urls] by blast
  define ds where "ds = list_sort (\<lambda>d. or0 (quality_score d)) True us"
  have run: "scrape_stub ref_lib 0 ''laptop'' = Inr ds"
    by (simp add: scrape_stub_Inr us ds_def)
  have len: "length ds = 4"
    using arg_cong [OF stub_deals_prices [OF us], of length] by (simp add: ds_def length_list_sort)
  have "map discount_percent ds = map (\<lambda>d. Some 20) ds"
    using C5_discount [OF run] by (intro map_cong) simp_all
  then have "map discount_percent ds = [Some 20, Some 20, Some 20, Some 20]"
    by (simp add: map_replicate_const len eval_nat_numeral)
  then show ?thesis
    using run len by (intro exI [of _ ds]) simp
qed

section \<open>Filtering and sorting\<close>

text \<open>
  Claim C6. For every list of deals, a sort directive that is none of \<open>price_low\<close>,
  \<open>price_high\<close>, \<open>rating\<close> and \<open>reviews\<close> sorts as the directive \<open>best\<close> does: in descending
  order of quality score, an absent score counting as 0.
\<close>

theorem C6_unknown_directive:
  assumes "s \<notin> {''price_low'', ''price_high'', ''rating'', ''reviews''}"
  shows "sort_deals (Some s) ds = sort_deals (Some ''best'') ds \<and>
         sort_deals (Some ''best'') ds = list_sort (\<lambda>d. or0 (quality_score d)) True ds \<and>
         sorted_wrt (\<lambda>a b. b \<le> a) (map (\<lambda>d. or0 (quality_score d)) (sort_deals (Some s) ds))"
  using assms by (simp add: sort_deals_def list_sort_descending)

theorem C6_unknown_directive_witness:
  "''banana'' \<notin> {''price_low'', ''price_high'', ''rating'', ''reviews''} \<and>
   sort_deals (Some ''banana'') example_deals =
     sort_deals (Some ''best'') example_deals"
  using C6_unknown_directive [of "''banana''" example_deals]
  by simp

text \<open>
  Claim C7. Filtering by price range is idempotent: for every list of deals and all optional
  bounds, filtering twice with the same bounds gives the list that filtering once gives.
\<close>

theorem C7_filter_idempotent:
  "filter_deals mn mx (filter_deals mn mx ds) = filter_deals mn mx ds"
  by (cases mn; cases mx) (auto simp: filter_deals_def intro: filter_cong)

text \<open>
  Claim C8. For every list of deals in which no two deals have the same price, the reverse
  of the list sorted with \<open>price_low\<close> is the list sorted with \<open>price_high\<close>.
\<close>

theorem C8_price_low_reversed:
  assumes "distinct (map price ds)"
  shows "rev (sort_deals (Some ''price_low'') ds) = sort_deals (Some ''price_high'') ds"
  using list_sort_reverse_distinct [OF assms] by (simp add: sort_deals_def)

theorem C8_price_low_reversed_witness:
  "distinct (map price example_deals) \<and>
   rev (sort_deals (Some ''price_low'') example_deals) =
     sort_deals (Some ''price_high'') example_deals"
proof -
  have d: "distinct (map price example_deals)"
    by (simp add: example_deals_def example_deal_def)
  show ?thesis
    using d C8_price_low_reversed [OF d] by simp
qed

section \<open>The pitch\<close>

text \<open>
  Claim C9. For every query, the pitch for the empty list of deals is the apology template,
  and the query stands in it literally.
\<close>

theorem C9_empty_pitch:
  "craft_pitch L q [] =
     ''I couldn't find great matches for '' @ lsquo @ q @ rsquo @
     '' right now. Try refining the product name or category, and I'll hunt for fresh deals.'' \<and>
   sublist q (craft_pitch L q [])"
proof -
  have eq: "craft_pitch L q [] =
     ''I couldn't find great matches for '' @ lsquo @ q @ rsquo @
     '' right now. Try refining the product name or category, and I'll hunt for fresh deals.''"
    by (simp add: craft_pitch_def)
  have "sublist q ((''I couldn't find great matches for '' @ lsquo) @ q @ (rsquo @
     '' right now. Try refining the product name or category, and I'll hunt for fresh deals.''))"
    by (rule sublist_appendI)
  then have "sublist q (craft_pitch L q [])"
    by (simp only: eq append_assoc)
  with eq show ?thesis
    by (rule conjI)
qed

text \<open>
  Claim C10. For every query and every list of exactly one deal, the pitch is the second
  template with an empty list of alternatives: the text \<open>I can also get you options from\<close>
  and a space is followed at once by a full stop and a space, and no alternative platform
  is named.
\<close>

theorem C10_single_deal_pitch:
  "craft_pitch L q [d] =
     (''If you're looking for '' @ q @ '', my best pick is on '' @
      str_capitalize L (platform d) @ '' at '' @ rupee @ str_int (int_of_float (price d)) @
      '' with '' @ str_opt (float_str L) (discount_percent d) @ ''% off and a solid '' @
      str_opt (float_str L) (rating d) @ star @ '' from '' @
      str_opt str_int (reviews_count d) @ ''+ reviews. '') @
     (''I can also get you options from '' @ ''. '') @
     ''Want me to open the best offer for you?'' \<and>
   sublist (''I can also get you options from '' @ ''. '') (craft_pitch L q [d]) \<and>
   take 2 (drop 1 [d]) = []"
proof -
  have eq: "craft_pitch L q [d] =
     (''If you're looking for '' @ q @ '', my best pick is on '' @
      str_capitalize L (platform d) @ '' at '' @ rupee @ str_int (int_of_float (price d)) @
      '' with '' @ str_opt (float_str L) (discount_percent d) @ ''% off and a solid '' @
      str_opt (float_str L) (rating d) @ star @ '' from '' @
      str_opt str_int (reviews_count d) @ ''+ reviews. '') @
     (''I can also get you options from '' @ ''. '') @
     ''Want me to open the best offer for you?''"
    by (simp add: craft_pitch_def)
  have "sublist (''I can also get you options from '' @ ''. '') (craft_pitch L q [d])"
    unfolding eq by (rule sublist_appendI)
  with eq show ?thesis
    by simp
qed

end
